theory Spec2Isabelle
  imports Main
begin

section \<open>Python strings\<close>

text \<open>
  A Python \<open>str\<close> is modelled as a \<open>string\<close>, each \<open>char\<close> standing for one code point
  below 256. The functions of this section are the \<open>str\<close> methods that the supervisor
  (\<open>__init__.py\<close>) and the worker (\<open>whisperx_runner.py\<close>) call.
\<close>

definition is_space :: "char \<Rightarrow> bool" where
  \<comment> \<open>\<open>str.isspace\<close> on one code point below 256: TAB, LF, VT, FF, CR, FS, GS, RS, US,
      SPACE, NEL and NBSP.\<close>
  "is_space c = ((of_char c :: nat) \<in> {9, 10, 11, 12, 13, 28, 29, 30, 31, 32, 133, 160})"

definition strip :: "string \<Rightarrow> string" where
  \<comment> \<open>\<open>s.strip()\<close>: leading and trailing whitespace removed.\<close>
  "strip s = rev (dropWhile is_space (rev (dropWhile is_space s)))"

definition startswith :: "string \<Rightarrow> string \<Rightarrow> bool" where
  \<comment> \<open>\<open>s.startswith(p)\<close>\<close>
  "startswith s p = (take (length p) s = p)"

definition endswith :: "string \<Rightarrow> string \<Rightarrow> bool" where
  \<comment> \<open>\<open>s.endswith(p)\<close>\<close>
  "endswith s p = (length p \<le> length s \<and> drop (length s - length p) s = p)"

definition slice_to_last :: "string \<Rightarrow> nat \<Rightarrow> string" where
  \<comment> \<open>\<open>s[i:-1]\<close> for \<open>i \<ge> 0\<close>: from index \<open>i\<close> up to, not including, the last character;
      empty when there is nothing in between.\<close>
  "slice_to_last s i = take (length s - 1 - i) (drop i s)"

fun contains :: "string \<Rightarrow> string \<Rightarrow> bool" where
  \<comment> \<open>\<open>w in s\<close>: \<open>w\<close> occurs in \<open>s\<close> as a contiguous substring.\<close>
  "contains [] w = (w = [])"
| "contains (c # cs) w = (startswith (c # cs) w \<or> contains cs w)"

function split_from :: "string \<Rightarrow> string \<Rightarrow> string \<Rightarrow> string list" where
  \<comment> \<open>The scan of \<open>s.split(sep)\<close> for a non-empty \<open>sep\<close>: \<open>acc\<close> holds, reversed, the
      characters of the current piece; occurrences are taken leftmost and do not overlap.\<close>
  "split_from sep acc [] = [rev acc]"
| "split_from sep acc (c # cs) =
     (if startswith (c # cs) sep then rev acc # split_from sep [] (drop (length sep - 1) cs)
      else split_from sep (c # acc) cs)"
  by pat_completeness auto
termination
  by (relation "measure (\<lambda>(sep, acc, s). length s)") auto

definition split :: "string \<Rightarrow> string \<Rightarrow> string list" where
  \<comment> \<open>\<open>s.split(sep)\<close>; the program only passes the separators \<open>'Error:'\<close> and \<open>'\n'\<close>
      (Python raises \<open>ValueError\<close> on an empty one).\<close>
  "split s sep = split_from sep [] s"

fun join :: "string \<Rightarrow> string list \<Rightarrow> string" where
  \<comment> \<open>\<open>sep.join(xs)\<close>\<close>
  "join sep [] = []"
| "join sep [x] = x"
| "join sep (x # y # ys) = x @ sep @ join sep (y # ys)"

definition last_n :: "nat \<Rightarrow> 'a list \<Rightarrow> 'a list" where
  \<comment> \<open>\<open>xs[-n:]\<close> for \<open>n > 0\<close>: the last \<open>n\<close> elements, all of them when there are fewer.\<close>
  "last_n n xs = drop (length xs - n) xs"

definition digit_char :: "nat \<Rightarrow> char" where
  \<comment> \<open>The decimal digit \<open>d < 10\<close> as a character.\<close>
  "digit_char d = ''0123456789'' ! d"

fun digits :: "nat \<Rightarrow> string" where
  "digits n = (if n < 10 then [digit_char n] else digits (n div 10) @ [digit_char (n mod 10)])"

declare digits.simps [simp del]

definition str_int :: "int \<Rightarrow> string" where
  \<comment> \<open>\<open>str(i)\<close>, also what an f-string writes for an \<open>int\<close>.\<close>
  "str_int i = (if i < 0 then ''-'' @ digits (nat (- i)) else digits (nat i))"

abbreviation quote :: char where
  "quote \<equiv> CHR 0x27"

fun model_match :: "string \<Rightarrow> string option" where
  \<comment> \<open>\<open>re.search(r"Model '([^']+)'", line)\<close>, returning group 1 of the leftmost match:
      at the first position where \<open>Model '\<close> is followed by at least one character other
      than a quote and then by a quote, the characters between the quotes.\<close>
  "model_match [] = None"
| "model_match (c # cs) =
     (if startswith (c # cs) (''Model '' @ [quote]) then
        (let rest = drop 7 (c # cs);
             name = takeWhile (\<lambda>x. x \<noteq> quote) rest;
             after = dropWhile (\<lambda>x. x \<noteq> quote) rest
         in if name \<noteq> [] \<and> after \<noteq> [] then Some name else model_match cs)
      else model_match cs)"

section \<open>The worker's command parser (\<open>WhisperXCLI.parse_command\<close>)\<close>

definition parse_command :: "string \<Rightarrow> string option \<times> string list" where
  "parse_command command0 =
     (let command = strip command0 in
      if command = ''exit()'' then (Some ''exit'', [])
      else if command = ''list-models()'' then (Some ''list-models'', [])
      else if startswith command ''load-model('' \<and> endswith command '')'' then
        (let arg = strip (slice_to_last command 11) in (Some ''load-model'', [arg]))
      else if startswith command ''transcribe-audio('' \<and> endswith command '')'' then
        (let arg = strip (slice_to_last command 17) in (Some ''transcribe-audio'', [arg]))
      else (None, []))"

section \<open>The supervisor's state (\<open>__init__.py\<close>)\<close>

text \<open>
  \<open>ui_state\<close> is an \<open>IntProperty\<close> holding one of five module constants.
\<close>

definition STATE_INITIAL :: int where "STATE_INITIAL = 0"
definition STATE_RUNNING :: int where "STATE_RUNNING = 1"
definition STATE_MODEL_READY :: int where "STATE_MODEL_READY = 2"
definition STATE_PROCESSING :: int where "STATE_PROCESSING = 3"
definition STATE_TRANSCRIBED :: int where "STATE_TRANSCRIBED = 4"

definition ui_states :: "int set" where
  "ui_states = {STATE_INITIAL, STATE_RUNNING, STATE_MODEL_READY, STATE_PROCESSING, STATE_TRANSCRIBED}"

text \<open>
  The functions \<open>add_to_log\<close>, \<open>update_loaded_model\<close>, \<open>update_transcription_output\<close>,
  \<open>update_status\<close>, \<open>update_ui_state\<close> and \<open>process_ended\<close> do not touch the properties
  themselves: each registers a closure \<open>_update\<close> with \<open>bpy.app.timers\<close>, which the UI
  thread runs later, in the order of registration. A registered closure is a value of
  type \<open>update\<close>; these are the events that the reader thread hands to the UI thread.
\<close>

datatype update =
    AddToLog string
  | UpdateLoadedModel string
  | UpdateTranscriptionOutput string
  | UpdateStatus string
  | UpdateUiState int
  | ProcessEnded "int option"

datatype signal = SIGTERM | SIGKILL

text \<open>
  The child process, as far as the supervisor sees and drives it: \<open>poll()\<close> reads
  \<open>returncode\<close>, \<open>stdin.write\<close> appends to \<open>stdin_data\<close>, \<open>terminate()\<close> and \<open>kill()\<close>
  append to \<open>signalled\<close>.
\<close>

record process =
  returncode :: "int option"
  stdin_closed :: bool
  stdin_data :: "string list"
  signalled :: "signal list"

text \<open>
  The fields of \<open>WhisperXProperties\<close> that the code modelled here reads or writes, the
  module globals \<open>whisperx_process\<close> and \<open>process_thread\<close> (the thread object reduced to
  its \<open>is_alive()\<close>), and the queue of registered timer closures. Redrawing
  (\<open>force_ui_update\<close>, \<open>last_update_time\<close>, the periodic redraw timer) and the Blender
  scene are outside the model.
\<close>

record state =
  ui_state :: int
  process_running :: bool
  available_models :: string
  script_path :: string
  status_message :: string
  loaded_model :: string
  process_log :: string
  transcription_output :: string
  whisperx_process :: "process option"
  process_thread :: "bool option"
  timers :: "update list"

section \<open>The deferred updates\<close>

definition truncate_log :: "string \<Rightarrow> string" where
  \<comment> \<open>\<open>lines = log.split('\n'); if len(lines) > 100: log = '\n'.join(lines[-100:])\<close>\<close>
  "truncate_log log =
     (let lines = split log ''\<newline>'' in
      if length lines > 100 then join ''\<newline>'' (last_n 100 lines) else log)"

text \<open>
  The closure of \<open>update_transcription_output\<close> may also add the audio file to the
  Blender scene, with every exception caught; that step changes no property.
\<close>

fun apply_update :: "update \<Rightarrow> state \<Rightarrow> state" where
  "apply_update (AddToLog line) s =
     s\<lparr>process_log := truncate_log (process_log s @ line @ ''\<newline>'')\<rparr>"
| "apply_update (UpdateLoadedModel model_name) s =
     s\<lparr>loaded_model := model_name,
       status_message := ''Model '' @ [quote] @ model_name @ [quote] @ '' loaded'',
       ui_state := STATE_MODEL_READY\<rparr>"
| "apply_update (UpdateTranscriptionOutput json_text) s =
     s\<lparr>transcription_output := json_text,
       ui_state := STATE_TRANSCRIBED,
       status_message := ''Transcription complete''\<rparr>"
| "apply_update (UpdateStatus message) s = s\<lparr>status_message := message\<rparr>"
| "apply_update (UpdateUiState st) s = s\<lparr>ui_state := st\<rparr>"
| "apply_update (ProcessEnded exit_code) s =
     (let s1 = s\<lparr>process_running := False, ui_state := STATE_INITIAL, loaded_model := ''None''\<rparr>;
          s2 = (case exit_code of
                  None \<Rightarrow>
                    s1\<lparr>status_message := ''Service stopped'',
                       process_log := process_log s1 @ ''Process ended normally\<newline>''\<rparr>
                | Some code \<Rightarrow>
                    if code \<noteq> 0 then
                      s1\<lparr>status_message := ''Service stopped with error (code: '' @ str_int code @ '')'',
                         process_log := process_log s1 @ ''Process exited with error code: ''
                                          @ str_int code @ ''\<newline>''\<rparr>
                    else
                      s1\<lparr>status_message := ''Service stopped'',
                         process_log := process_log s1 @ ''Process ended normally\<newline>''\<rparr>)
      in s2\<lparr>whisperx_process := None, process_thread := None\<rparr>)"

definition register :: "update list \<Rightarrow> state \<Rightarrow> state" where
  \<comment> \<open>\<open>bpy.app.timers.register(_update)\<close>, for several closures in a row.\<close>
  "register us s = s\<lparr>timers := timers s @ us\<rparr>"

definition run_timers :: "state \<Rightarrow> state" where
  \<comment> \<open>The UI thread runs every registered closure, oldest first; each runs once.\<close>
  "run_timers s = fold apply_update (timers s) (s\<lparr>timers := []\<rparr>)"

section \<open>The reader thread (\<open>read_process_output\<close>)\<close>

record parse_ctx =
  json_capture :: bool
  json_lines :: "string list"

definition ctx0 :: parse_ctx where
  "ctx0 = \<lparr>json_capture = False, json_lines = []\<rparr>"

definition DELIMITER :: string where
  "DELIMITER = replicate 60 CHR ''=''"

definition is_delimiter :: "string \<Rightarrow> bool" where
  \<comment> \<open>The test the loop applies to the stripped line.\<close>
  "is_delimiter line = startswith line DELIMITER"

definition scan_status :: "string \<Rightarrow> update list" where
  \<comment> \<open>The part of the loop body under the comments \<open>Parse status messages\<close> and
      \<open>Update status based on key phrases\<close>. An \<open>IndexError\<close> of the subscript \<open>[1]\<close> would
      be caught by the loop's \<open>except Exception\<close>.\<close>
  "scan_status line =
     (if contains line ''Model'' \<and> contains line ''loaded'' then
        (case model_match line of Some model_name \<Rightarrow> [UpdateLoadedModel model_name] | None \<Rightarrow> [])
      else [])
     @
     (if contains line ''Error:'' then
        (case split line ''Error:'' of
           _ # msg # _ \<Rightarrow> [UpdateStatus (''Error: '' @ strip msg)]
         | _ \<Rightarrow> [AddToLog ''Error reading output: list index out of range''])
      else if contains line ''Starting'' \<or> contains line ''Setting up'' then
        [UpdateStatus ''Starting service...'']
      else if contains line ''Environment setup complete'' then
        [UpdateStatus ''Service running'', UpdateUiState STATE_RUNNING]
      else if contains line ''Transcribing'' then [UpdateStatus ''Transcribing audio...'']
      else if contains line ''Downloading'' \<or> contains line ''Loading model'' then
        [UpdateStatus ''Loading model...'']
      else if contains line ''Transcription completed'' then
        [UpdateStatus ''Processing transcription...'']
      else [])"

definition process_line :: "parse_ctx \<Rightarrow> string \<Rightarrow> parse_ctx \<times> update list" where
  \<comment> \<open>One pass of the loop body for a line that \<open>readline()\<close> returned: the new values of
      the locals \<open>json_capture\<close> and \<open>json_lines\<close>, and the closures registered, in order.
      The line is a \<open>str\<close> (the pipe is opened in text mode), so \<open>line.strip()\<close> cannot
      raise \<open>UnicodeDecodeError\<close>.\<close>
  "process_line ctx raw =
     (let line = strip raw;
          (ctx', us) =
            (if is_delimiter line then
               (if json_capture ctx then
                  (let json_text = join ''\<newline>'' (json_lines ctx)
                   in (ctx\<lparr>json_capture := False, json_lines := []\<rparr>,
                       [UpdateTranscriptionOutput json_text]))
                else (ctx\<lparr>json_capture := True\<rparr>, []))
             else if json_capture ctx then (ctx\<lparr>json_lines := json_lines ctx @ [line]\<rparr>, [])
             else (ctx, [AddToLog line]))
      in (ctx', us @ scan_status line))"

text \<open>
  What one turn of the \<open>while True\<close> loop meets: the process has exited (\<open>poll()\<close> is not
  \<open>None\<close>), \<open>readline()\<close> returned a line, or \<open>readline()\<close> raised. A \<open>readline()\<close> that
  returns the empty string makes the loop sleep and go on.
\<close>

datatype observation = Exited int | Line string | ReadError string

fun read_process_output :: "parse_ctx \<Rightarrow> observation list \<Rightarrow> parse_ctx \<times> update list" where
  \<comment> \<open>The loop over a finite run of observations: the locals when the run ends (or the
      loop breaks) and every closure registered.\<close>
  "read_process_output ctx [] = (ctx, [])"
| "read_process_output ctx (Exited exit_code # rest) =
     (ctx, [AddToLog (''Process exited with code '' @ str_int exit_code),
            ProcessEnded (Some exit_code)])"
| "read_process_output ctx (Line raw # rest) =
     (if raw = [] then read_process_output ctx rest
      else
        (let (ctx1, us1) = process_line ctx raw;
             (ctx2, us2) = read_process_output ctx1 rest
         in (ctx2, us1 @ us2)))"
| "read_process_output ctx (ReadError e # rest) =
     (let (ctx2, us2) = read_process_output ctx rest
      in (ctx2, AddToLog (''Error reading output: '' @ e) # us2))"

definition feed :: "observation list \<Rightarrow> state \<Rightarrow> state" where
  \<comment> \<open>The reader thread meets the observations, then the UI thread runs the timers.\<close>
  "feed obs s = run_timers (register (snd (read_process_output ctx0 obs)) s)"

definition json_blocks :: "update list \<Rightarrow> string list" where
  \<comment> \<open>The texts of the \<open>update_transcription_output\<close> closures among the registered
      ones, in order.\<close>
  "json_blocks us = concat (map (\<lambda>u. case u of UpdateTranscriptionOutput t \<Rightarrow> [t] | _ \<Rightarrow> []) us)"

definition count_delimiter_lines :: "string list \<Rightarrow> nat" where
  \<comment> \<open>How many of the raw lines pass the loop's own test, \<open>line.startswith('=' * 60)\<close> on
      the stripped line: the lines that begin with 60 \<open>=\<close>, whatever follows.\<close>
  "count_delimiter_lines raws = length (filter (\<lambda>raw. is_delimiter (strip raw)) raws)"

definition count_exact_delimiters :: "string list \<Rightarrow> nat" where
  \<comment> \<open>Following the spec's words, for comparison with the code: how many of the raw lines
      are, once stripped, exactly equal to the delimiter of 60 \<open>=\<close>.\<close>
  "count_exact_delimiters raws = length (filter (\<lambda>raw. strip raw = DELIMITER) raws)"

section \<open>The operators\<close>

datatype op_result = FINISHED | CANCELLED

datatype level = INFO | WARNING | ERROR

type_synonym report = "level \<times> string"

text \<open>
  What the operators ask of the operating system. A call that raises is an oracle that
  answers with the text of the exception.
\<close>

record os =
  path_exists :: "string \<Rightarrow> bool"
  find_whisperx_script :: "string option"
  popen :: "string \<Rightarrow> string + process"
  write_raises :: "process \<Rightarrow> string option"
  signal_raises :: "process \<Rightarrow> signal \<Rightarrow> string option"
  sleep_100ms :: "process \<Rightarrow> process"

definition launch :: "os \<Rightarrow> string \<Rightarrow> state \<Rightarrow> op_result \<times> report list \<times> state" where
  \<comment> \<open>The rest of the \<open>try\<close> block of \<open>WHISPERX_OT_start_service.execute\<close>, once the script
      is found: \<open>subprocess.Popen\<close>, the reader thread, the properties.\<close>
  "launch sys whisperx_script s =
     (case popen sys whisperx_script of
        Inl e \<Rightarrow>
          (let error_msg = ''Error starting service: '' @ e
           in (CANCELLED, [(ERROR, error_msg)], s\<lparr>status_message := error_msg\<rparr>))
      | Inr p \<Rightarrow>
          (FINISHED, [],
           s\<lparr>whisperx_process := Some p,
             process_thread := Some True,
             process_running := True,
             status_message := ''Starting service...'',
             process_log := ''Initializing WhisperX service...\<newline>'',
             ui_state := STATE_PROCESSING\<rparr>))"

definition start_service :: "os \<Rightarrow> state \<Rightarrow> op_result \<times> report list \<times> state" where
  \<comment> \<open>\<open>WHISPERX_OT_start_service.execute\<close>\<close>
  "start_service sys s =
     (if process_running s then (CANCELLED, [(WARNING, ''Service is already running'')], s)
      else if script_path s = [] \<or> \<not> path_exists sys (script_path s) then
        (case find_whisperx_script sys of
           Some found \<Rightarrow>
             if found \<noteq> [] then
               launch sys found (s\<lparr>script_path := found, status_message := ''Found script''\<rparr>)
             else
               (CANCELLED,
                [(ERROR, ''whisperx_runner.py not found. Please use 'Locate Script' button.'')],
                s\<lparr>status_message := ''Error: Script not found''\<rparr>)
         | None \<Rightarrow>
             (CANCELLED,
              [(ERROR, ''whisperx_runner.py not found. Please use 'Locate Script' button.'')],
              s\<lparr>status_message := ''Error: Script not found''\<rparr>))
      else launch sys (script_path s) s)"

fun wait_exit :: "os \<Rightarrow> nat \<Rightarrow> process \<Rightarrow> bool \<times> process" where
  \<comment> \<open>\<open>for _ in range(n): if p.poll() is not None: ...; break; time.sleep(0.1)\<close>: whether the
      loop broke, and the process afterwards.\<close>
  "wait_exit sys 0 p = (False, p)"
| "wait_exit sys (Suc n) p =
     (if returncode p \<noteq> None then (True, p) else wait_exit sys n (sleep_100ms sys p))"

definition graceful :: "os \<Rightarrow> process \<Rightarrow> process \<times> string list" where
  \<comment> \<open>Method 1: the process afterwards and the lines passed to \<open>add_to_log\<close>.\<close>
  "graceful sys p =
     (if \<not> stdin_closed p then
        (case write_raises sys p of
           Some e \<Rightarrow> (p, [''Could not send exit command: '' @ e])
         | None \<Rightarrow>
             (let p1 = p\<lparr>stdin_data := stdin_data p @ [''exit()\<newline>''], stdin_closed := True\<rparr>;
                  (exited, p2) = wait_exit sys 30 p1
              in (p2, if exited then [''Service stopped gracefully''] else [])))
      else (p, []))"

definition terminate :: "os \<Rightarrow> process \<Rightarrow> process \<times> string list" where
  \<comment> \<open>Method 2\<close>
  "terminate sys p =
     (if returncode p = None then
        (case signal_raises sys p SIGTERM of
           Some e \<Rightarrow> (p, [''Terminating process...'', ''Could not terminate process: '' @ e])
         | None \<Rightarrow>
             (let (exited, p2) = wait_exit sys 20 (p\<lparr>signalled := signalled p @ [SIGTERM]\<rparr>)
              in (p2, ''Terminating process...'' # (if exited then [''Service terminated''] else []))))
      else (p, []))"

definition kill :: "os \<Rightarrow> process \<Rightarrow> process \<times> string list" where
  \<comment> \<open>Method 3\<close>
  "kill sys p =
     (if returncode p = None then
        (case signal_raises sys p SIGKILL of
           Some e \<Rightarrow> (p, [''Force killing process...'', ''Could not kill process: '' @ e])
         | None \<Rightarrow>
             (let p2 = (sleep_100ms sys ^^ 5) (p\<lparr>signalled := signalled p @ [SIGKILL]\<rparr>)
              in (p2, [''Force killing process...'',
                       if returncode p2 \<noteq> None then ''Service force killed''
                       else ''Warning: Could not kill process''])))
      else (p, []))"

definition shutdown :: "os \<Rightarrow> process \<Rightarrow> process \<times> string list" where
  \<comment> \<open>The block under \<open>Handle process termination\<close>.\<close>
  "shutdown sys p =
     (if returncode p = None then
        (let (p1, l1) = graceful sys p;
             (p2, l2) = terminate sys p1;
             (p3, l3) = kill sys p2
         in (p3, ''Stopping WhisperX service...'' # l1 @ l2 @ l3))
      else (p, []))"

definition stop_service ::
  "os \<Rightarrow> state \<Rightarrow> op_result \<times> report list \<times> process option \<times> state" where
  \<comment> \<open>\<open>WHISPERX_OT_stop_service.execute\<close>. The third component is the process object that
      \<open>whisperx_process\<close> named when the operator was called, as the operator leaves it.
      Nothing outside the inner \<open>try\<close> blocks raises, so the outer \<open>except\<close> has no branch.\<close>
  "stop_service sys s =
     (if \<not> process_running s then
        (CANCELLED, [(WARNING, ''No service is running'')], whisperx_process s, s)
      else
        (let s1 = s\<lparr>process_running := False,
                    status_message := ''Stopping service...'',
                    ui_state := STATE_INITIAL,
                    loaded_model := ''None''\<rparr>;
             (proc, l1) = (case whisperx_process s1 of
                             None \<Rightarrow> (None, [])
                           | Some p \<Rightarrow> (let (p', l) = shutdown sys p in (Some p', l)));
             l2 = (if process_thread s1 = Some True
                   then [''Waiting for process thread to finish...''] else []);
             s2 = register (map AddToLog (l1 @ l2)) s1
         in (FINISHED, [(INFO, ''Service stopped successfully'')], proc,
             s2\<lparr>whisperx_process := None,
                process_thread := None,
                status_message := ''Service stopped'',
                process_log := process_log s2 @ ''=== Service stopped by user ===\<newline>''\<rparr>)))"

definition load_model :: "os \<Rightarrow> state \<Rightarrow> op_result \<times> report list \<times> state" where
  \<comment> \<open>\<open>WHISPERX_OT_load_model.execute\<close>; writing to a closed \<open>stdin\<close> raises \<open>ValueError\<close>.\<close>
  "load_model sys s =
     (if \<not> process_running s then
        (CANCELLED, [(WARNING, ''Service is not running. Start it first.'')], s)
      else
        (case whisperx_process s of
           Some p \<Rightarrow>
             if returncode p = None then
               (let model_name = available_models s;
                    command = ''load-model('' @ model_name @ '')\<newline>'';
                    raised = (if stdin_closed p then Some ''I/O operation on closed file.''
                              else write_raises sys p)
                in case raised of
                     Some e \<Rightarrow> (CANCELLED, [(ERROR, ''Error loading model: '' @ e)], s)
                   | None \<Rightarrow>
                       (FINISHED, [],
                        s\<lparr>whisperx_process := Some (p\<lparr>stdin_data := stdin_data p @ [command]\<rparr>),
                          status_message := ''Loading model...'',
                          process_log := process_log s @ ''Loading model: '' @ model_name
                                           @ ''...\<newline>'',
                          ui_state := STATE_PROCESSING\<rparr>))
             else
               (FINISHED, [],
                s\<lparr>status_message := ''Error: Service not responding'',
                  process_running := False,
                  ui_state := STATE_INITIAL\<rparr>)
         | None \<Rightarrow>
             (FINISHED, [],
              s\<lparr>status_message := ''Error: Service not responding'',
                process_running := False,
                ui_state := STATE_INITIAL\<rparr>)))"

definition initial_state :: state where
  \<comment> \<open>The defaults of \<open>WhisperXProperties\<close> and of the module globals.\<close>
  "initial_state =
     \<lparr>ui_state = STATE_INITIAL, process_running = False, available_models = ''tiny.en'',
      script_path = '''', status_message = ''Ready to start'', loaded_model = ''None'',
      process_log = '''', transcription_output = '''', whisperx_process = None,
      process_thread = None, timers = []\<rparr>"

definition line_count :: "string \<Rightarrow> nat" where
  \<comment> \<open>The number of newline-terminated lines of a log.\<close>
  "line_count log = length (filter (\<lambda>c. c = CHR ''\<newline>'') log)"

definition unlines :: "string list \<Rightarrow> string" where
  \<comment> \<open>The log text that holds exactly the given lines, each ended by a newline.\<close>
  "unlines ls = concat (map (\<lambda>l. l @ ''\<newline>'') ls)"

definition add_lines :: "string list \<Rightarrow> state \<Rightarrow> state" where
  \<comment> \<open>\<open>add_to_log\<close> called for each line in turn, the closures then run in that order.\<close>
  "add_lines ls s = fold (\<lambda>l. apply_update (AddToLog l)) ls s"

definition hundred_lines :: "string list" where
  \<comment> \<open>The lines \<open>1\<close>, \<open>2\<close>, ..., \<open>100\<close>.\<close>
  "hundred_lines = map (\<lambda>n. str_int (int n)) [1..<101]"

section \<open>A fake worker for concrete runs\<close>

text \<open>
  An operating system with the script in place, whose worker starts and then ignores
  every command and signal.
\<close>

definition fake_process :: process where
  "fake_process = \<lparr>returncode = None, stdin_closed = False, stdin_data = [], signalled = []\<rparr>"

definition fake_os :: os where
  "fake_os =
     \<lparr>path_exists = (\<lambda>p. p = ''/addon/whisperx_runner.py''),
      find_whisperx_script = Some ''/addon/whisperx_runner.py'',
      popen = (\<lambda>script. Inr fake_process),
      write_raises = (\<lambda>p. None),
      signal_raises = (\<lambda>p sig. None),
      sleep_100ms = (\<lambda>p. p)\<rparr>"

definition started_state :: state where
  \<comment> \<open>The state after \<open>Start Service\<close> on a fresh scene.\<close>
  "started_state = snd (snd (start_service fake_os initial_state))"

section \<open>Facts about the string functions\<close>

lemma startswith_iff: "startswith s p \<longleftrightarrow> (\<exists>r. s = p @ r)"
  unfolding startswith_def
  by (metis append_eq_conv_conj append_take_drop_id)

lemma endswith_iff: "endswith s p \<longleftrightarrow> (\<exists>r. s = r @ p)"
  unfolding endswith_def
  by (metis add_diff_cancel_right' append_eq_conv_conj append_take_drop_id
      diff_le_self length_append length_drop)

lemma wrapped_iff:
  "startswith s (p @ ''('') \<and> endswith s '')'' \<longleftrightarrow> (\<exists>mid. s = p @ ''('' @ mid @ '')'')"
proof
  assume h: "startswith s (p @ ''('') \<and> endswith s '')''"
  then obtain r where r: "s = (p @ ''('') @ r" by (auto simp: startswith_iff)
  from h obtain q where q: "s = q @ '')''" by (auto simp: endswith_iff)
  have "r \<noteq> []" using r q by (cases r) (auto simp: append_eq_append_conv2 Cons_eq_append_conv)
  then obtain mid x where rm: "r = mid @ [x]" by (metis rev_exhaust)
  with r q have "x = CHR '')''" by simp
  with r rm show "\<exists>mid. s = p @ ''('' @ mid @ '')''" by auto
next
  assume "\<exists>mid. s = p @ ''('' @ mid @ '')''"
  then show "startswith s (p @ ''('') \<and> endswith s '')''"
    by (auto simp: startswith_iff endswith_iff)
qed

lemma contains_iff: "contains s w \<longleftrightarrow> (\<exists>a b. s = a @ w @ b)"
proof (induction s)
  case Nil
  then show ?case by auto
next
  case (Cons c cs)
  show ?case
  proof
    assume "contains (c # cs) w"
    then consider "startswith (c # cs) w" | "contains cs w" by auto
    then show "\<exists>a b. c # cs = a @ w @ b"
    proof cases
      case 1
      then obtain r where "c # cs = w @ r" by (auto simp: startswith_iff)
      then have "c # cs = [] @ w @ r" by simp
      then show ?thesis by blast
    next
      case 2
      then obtain a b where "cs = a @ w @ b" using Cons.IH by blast
      then have "c # cs = (c # a) @ w @ b" by simp
      then show ?thesis by blast
    qed
  next
    assume "\<exists>a b. c # cs = a @ w @ b"
    then obtain a b where ab: "c # cs = a @ w @ b" by blast
    show "contains (c # cs) w"
    proof (cases a)
      case Nil
      with ab have "startswith (c # cs) w" by (auto simp: startswith_iff)
      then show ?thesis by simp
    next
      case (Cons x a')
      with ab have "cs = a' @ w @ b" by simp
      then have "contains cs w" using Cons.IH by blast
      then show ?thesis by simp
    qed
  qed
qed

lemma contains_set: "contains s w \<Longrightarrow> set w \<subseteq> set s"
  by (auto simp: contains_iff)

lemma digit_char_cases: "d < 10 \<Longrightarrow> digit_char d \<in> set ''0123456789''"
  unfolding digit_char_def by (rule nth_mem) simp

lemma set_digits: "set (digits n) \<subseteq> set ''0123456789''"
proof (induction n rule: digits.induct)
  case (1 n)
  show ?case
  proof (cases "n < 10")
    case True
    then show ?thesis using digit_char_cases[of n] by (subst digits.simps) simp
  next
    case False
    have "n mod 10 < 10" by simp
    then have "digit_char (n mod 10) \<in> set ''0123456789''" by (rule digit_char_cases)
    with False 1 show ?thesis by (subst digits.simps) simp
  qed
qed

lemma in_str_int: "c \<in> set (str_int i) \<Longrightarrow> c = CHR ''-'' \<or> c \<in> set ''0123456789''"
proof -
  assume c: "c \<in> set (str_int i)"
  show ?thesis
  proof (cases "i < 0")
    case True
    with c have "c \<in> set (''-'' @ digits (nat (- i)))" by (simp only: str_int_def if_True)
    then have "c = CHR ''-'' \<or> c \<in> set (digits (nat (- i)))" by (simp only: set_append) simp
    then show ?thesis using set_digits[of "nat (- i)"] by blast
  next
    case False
    with c have "c \<in> set (digits (nat i))" by (simp only: str_int_def if_False)
    then show ?thesis using set_digits[of "nat i"] by blast
  qed
qed

section \<open>Facts about the reader loop\<close>

lemma not_delimiter_Nil: "\<not> is_delimiter []"
  by (simp add: is_delimiter_def startswith_def DELIMITER_def)

lemma is_delimiter_iff: "is_delimiter line \<longleftrightarrow> (\<exists>rest. line = replicate 60 CHR ''='' @ rest)"
  by (simp add: is_delimiter_def startswith_iff DELIMITER_def)

lemma process_line_capture:
  "json_capture (fst (process_line ctx raw)) = (json_capture ctx \<noteq> is_delimiter (strip raw))"
  by (simp add: process_line_def Let_def split: prod.splits)

lemma json_blocks_append: "json_blocks (us @ vs) = json_blocks us @ json_blocks vs"
  by (simp add: json_blocks_def)

lemma json_blocks_simps:
  "json_blocks [] = []"
  "json_blocks (UpdateTranscriptionOutput t # us) = t # json_blocks us"
  "json_blocks (AddToLog l # us) = json_blocks us"
  "json_blocks (UpdateStatus m # us) = json_blocks us"
  "json_blocks (UpdateLoadedModel n # us) = json_blocks us"
  "json_blocks (UpdateUiState st # us) = json_blocks us"
  "json_blocks (ProcessEnded code # us) = json_blocks us"
  by (simp_all add: json_blocks_def)

lemma json_blocks_error_part:
  "json_blocks (case xs of [] \<Rightarrow> [AddToLog e] | [a] \<Rightarrow> [AddToLog e]
                | a # msg # r \<Rightarrow> [UpdateStatus (f msg)]) = []"
proof (cases xs)
  case Nil
  then show ?thesis by (simp add: json_blocks_simps)
next
  case (Cons a ys)
  then show ?thesis by (cases ys) (simp_all add: json_blocks_simps)
qed

lemma json_blocks_scan_status: "json_blocks (scan_status line) = []"
  unfolding scan_status_def json_blocks_append
  by (simp add: json_blocks_simps json_blocks_error_part split: option.split)

lemma process_line_blocks:
  "json_blocks (snd (process_line ctx raw)) =
     (if is_delimiter (strip raw) \<and> json_capture ctx then [join ''\<newline>'' (json_lines ctx)] else [])"
  by (cases "is_delimiter (strip raw)"; cases "json_capture ctx")
     (simp_all add: process_line_def Let_def json_blocks_append json_blocks_scan_status
        json_blocks_simps)

lemma process_line_closing:
  "json_capture ctx \<Longrightarrow> is_delimiter (strip raw) \<Longrightarrow>
     json_lines (fst (process_line ctx raw)) = [] \<and> \<not> json_capture (fst (process_line ctx raw))"
  by (simp add: process_line_def Let_def)

lemma read_lines_blocks:
  "length (json_blocks (snd (read_process_output ctx (map Line raws)))) =
     (count_delimiter_lines raws + (if json_capture ctx then 1 else 0)) div 2 \<and>
   json_capture (fst (read_process_output ctx (map Line raws))) =
     (json_capture ctx \<noteq> odd (count_delimiter_lines raws))"
proof (induction raws arbitrary: ctx)
  case Nil
  then show ?case by (simp add: count_delimiter_lines_def json_blocks_def)
next
  case (Cons raw raws)
  show ?case
  proof (cases "raw = []")
    case True
    have "\<not> is_delimiter (strip [])" by (simp add: strip_def not_delimiter_Nil)
    then have c: "count_delimiter_lines ([] # raws) = count_delimiter_lines raws"
      by (simp add: count_delimiter_lines_def)
    show ?thesis using True Cons.IH[of ctx] by (simp add: c)
  next
    case False
    obtain ctx1 us1 where p: "process_line ctx raw = (ctx1, us1)" by (cases "process_line ctx raw")
    obtain ctx2 us2 where r: "read_process_output ctx1 (map Line raws) = (ctx2, us2)"
      by (cases "read_process_output ctx1 (map Line raws)")
    have step: "read_process_output ctx (map Line (raw # raws)) = (ctx2, us1 @ us2)"
      using False p r by simp
    have cap1: "json_capture ctx1 = (json_capture ctx \<noteq> is_delimiter (strip raw))"
      using process_line_capture[of ctx raw] p by simp
    have b1: "json_blocks us1 =
      (if is_delimiter (strip raw) \<and> json_capture ctx then [join ''\<newline>'' (json_lines ctx)] else [])"
      using process_line_blocks[of ctx raw] p by simp
    have ih: "length (json_blocks us2) =
        (count_delimiter_lines raws + (if json_capture ctx1 then 1 else 0)) div 2"
      "json_capture ctx2 = (json_capture ctx1 \<noteq> odd (count_delimiter_lines raws))"
      using Cons.IH[of ctx1] r by simp_all
    have c: "count_delimiter_lines (raw # raws) =
        (if is_delimiter (strip raw) then 1 else 0) + count_delimiter_lines raws"
      by (simp add: count_delimiter_lines_def)
    show ?thesis
      unfolding step fst_conv snd_conv json_blocks_append length_append ih c b1 cap1
      by (cases "is_delimiter (strip raw)"; cases "json_capture ctx") auto
  qed
qed

lemma notin_if:
  "(A \<Longrightarrow> x \<notin> set xs) \<Longrightarrow> (\<not> A \<Longrightarrow> x \<notin> set ys) \<Longrightarrow> x \<notin> set (if A then xs else ys)"
  by (cases A) simp_all

lemma notin_append: "x \<notin> set xs \<Longrightarrow> x \<notin> set ys \<Longrightarrow> x \<notin> set (xs @ ys)"
  by simp

lemma split_from_nonempty: "split_from sep acc s \<noteq> []"
  by (induction sep acc s rule: split_from.induct) auto

lemma split_from_two:
  "sep \<noteq> [] \<Longrightarrow> contains s sep \<Longrightarrow> 2 \<le> length (split_from sep acc s)"
proof (induction sep acc s rule: split_from.induct)
  case (1 sep acc)
  then show ?case by simp
next
  case (2 sep acc c cs)
  show ?case
  proof (cases "startswith (c # cs) sep")
    case True
    have "1 \<le> length (split_from sep [] (drop (length sep - 1) cs))"
      using split_from_nonempty[of sep "[]" "drop (length sep - 1) cs"]
      by (cases "split_from sep [] (drop (length sep - 1) cs)") auto
    with True show ?thesis by simp
  next
    case False
    with 2 show ?thesis by simp
  qed
qed

lemma split_two:
  assumes "sep \<noteq> []" "contains s sep"
  obtains a msg r where "split s sep = a # msg # r"
proof -
  have "2 \<le> length (split s sep)" using assms by (simp add: split_def split_from_two)
  then show ?thesis using that
    by (cases "split s sep"; cases "tl (split s sep)") auto
qed

lemma scan_status_no_log: "AddToLog l \<notin> set (scan_status line)"
  unfolding scan_status_def
proof (intro notin_append notin_if)
  assume "contains line ''Error:''"
  then obtain a msg r where "split line ''Error:'' = a # msg # r"
    using split_two[of "''Error:''" line] by auto
  then show "AddToLog l \<notin> set (case split line ''Error:'' of
           [] \<Rightarrow> [AddToLog ''Error reading output: list index out of range'']
         | [a] \<Rightarrow> [AddToLog ''Error reading output: list index out of range'']
         | a # msg # r \<Rightarrow> [UpdateStatus (''Error: '' @ strip msg)])"
    by simp
qed (simp_all split: option.split)

lemma process_line_captured:
  "json_capture ctx \<Longrightarrow> \<not> is_delimiter (strip raw) \<Longrightarrow>
     process_line ctx raw = (ctx\<lparr>json_lines := json_lines ctx @ [strip raw]\<rparr>, scan_status (strip raw))"
  by (simp add: process_line_def Let_def)

lemma process_line_logged:
  "\<not> json_capture ctx \<Longrightarrow> \<not> is_delimiter (strip raw) \<Longrightarrow>
     process_line ctx raw = (ctx, AddToLog (strip raw) # scan_status (strip raw))"
  by (simp add: process_line_def Let_def)

lemma progress_chars:
  assumes "c \<in> set (''progress='' @ str_int n)"
  shows "c \<in> set ''progress=-0123456789''"
proof -
  from assms have "c \<in> set ''progress='' \<or> c \<in> set (str_int n)" by (simp only: set_append Un_iff)
  then show ?thesis
  proof
    assume "c \<in> set ''progress=''" then show ?thesis by auto
  next
    assume "c \<in> set (str_int n)"
    then have "c = CHR ''-'' \<or> c \<in> set ''0123456789''" by (rule in_str_int)
    then show ?thesis by auto
  qed
qed

lemma progress_no_keyword:
  assumes "u \<in> set w" "u \<notin> set ''progress=-0123456789''"
  shows "\<not> contains (''progress='' @ str_int n) w"
proof
  assume "contains (''progress='' @ str_int n) w"
  then have "set w \<subseteq> set (''progress='' @ str_int n)" by (rule contains_set)
  with assms(1) have "u \<in> set (''progress='' @ str_int n)" by blast
  then have "u \<in> set ''progress=-0123456789''" by (rule progress_chars)
  with assms(2) show False by simp
qed

lemma scan_status_progress: "scan_status (''progress='' @ str_int n) = []"
proof -
  let ?l = "''progress='' @ str_int n"
  have k0: "\<not> contains ?l ''Model''"
    by (rule progress_no_keyword[where u = "CHR ''M''"]) simp_all
  have k1: "\<not> contains ?l ''Error:''"
    by (rule progress_no_keyword[where u = "CHR ''E''"]) simp_all
  have k2: "\<not> contains ?l ''Starting''"
    by (rule progress_no_keyword[where u = "CHR ''S''"]) simp_all
  have k3: "\<not> contains ?l ''Setting up''"
    by (rule progress_no_keyword[where u = "CHR ''S''"]) simp_all
  have k4: "\<not> contains ?l ''Environment setup complete''"
    by (rule progress_no_keyword[where u = "CHR ''E''"]) simp_all
  have k5: "\<not> contains ?l ''Transcribing''"
    by (rule progress_no_keyword[where u = "CHR ''T''"]) simp_all
  have k6: "\<not> contains ?l ''Downloading''"
    by (rule progress_no_keyword[where u = "CHR ''D''"]) simp_all
  have k7: "\<not> contains ?l ''Loading model''"
    by (rule progress_no_keyword[where u = "CHR ''L''"]) simp_all
  have k8: "\<not> contains ?l ''Transcription completed''"
    by (rule progress_no_keyword[where u = "CHR ''T''"]) simp_all
  note k = k0 k1 k2 k3 k4 k5 k6 k7 k8
  show ?thesis unfolding scan_status_def by (simp only: k) simp
qed

lemma progress_not_delimiter: "\<not> is_delimiter (''progress='' @ str_int n)"
proof
  assume "is_delimiter (''progress='' @ str_int n)"
  then obtain rest where "''progress='' @ str_int n = replicate 60 CHR ''='' @ rest"
    by (auto simp: is_delimiter_iff)
  then have "hd (''progress='' @ str_int n) = hd (replicate 60 CHR ''='' @ rest)" by simp
  then show False by (simp add: hd_append)
qed


lemma scan_status_ui_state: "UpdateUiState st \<in> set (scan_status line) \<Longrightarrow> st = STATE_RUNNING"
proof (rule ccontr)
  assume m: "UpdateUiState st \<in> set (scan_status line)" and n: "st \<noteq> STATE_RUNNING"
  have "UpdateUiState st \<notin> set (scan_status line)"
    unfolding scan_status_def
    by (intro notin_append notin_if) (simp_all add: n split: option.split list.split)
  with m show False by simp
qed

lemma process_line_ui_state:
  "UpdateUiState st \<in> set (snd (process_line ctx raw)) \<Longrightarrow> st = STATE_RUNNING"
  by (cases "is_delimiter (strip raw)"; cases "json_capture ctx")
     (auto simp: process_line_def Let_def dest: scan_status_ui_state)

lemma read_process_output_ui_state:
  "UpdateUiState st \<in> set (snd (read_process_output ctx obs)) \<Longrightarrow> st = STATE_RUNNING"
proof (induction obs arbitrary: ctx)
  case Nil
  then show ?case by simp
next
  case (Cons ob rest)
  show ?case
  proof (cases ob)
    case (Exited exit_code)
    with Cons.prems show ?thesis by simp
  next
    case (Line raw)
    show ?thesis
    proof (cases "raw = []")
      case True
      with Cons Line show ?thesis by simp
    next
      case False
      obtain ctx1 us1 where p: "process_line ctx raw = (ctx1, us1)" by (cases "process_line ctx raw")
      obtain ctx2 us2 where r: "read_process_output ctx1 rest = (ctx2, us2)"
        by (cases "read_process_output ctx1 rest")
      from Cons.prems Line False p r
      have "UpdateUiState st \<in> set us1 \<or> UpdateUiState st \<in> set us2" by simp
      then show ?thesis
      proof
        assume "UpdateUiState st \<in> set us1"
        then show ?thesis using process_line_ui_state[of st ctx raw] p by simp
      next
        assume "UpdateUiState st \<in> set us2"
        then show ?thesis using Cons.IH[of ctx1] r by simp
      qed
    qed
  next
    case (ReadError e)
    obtain ctx2 us2 where r: "read_process_output ctx rest = (ctx2, us2)"
      by (cases "read_process_output ctx rest")
    from Cons.prems ReadError r have "UpdateUiState st \<in> set us2" by simp
    then show ?thesis using Cons.IH[of ctx] r by simp
  qed
qed

lemma ui_state_apply_update:
  "ui_state (apply_update u s) =
     (case u of UpdateLoadedModel m \<Rightarrow> STATE_MODEL_READY
      | UpdateTranscriptionOutput t \<Rightarrow> STATE_TRANSCRIBED
      | UpdateUiState st \<Rightarrow> st
      | ProcessEnded code \<Rightarrow> STATE_INITIAL
      | _ \<Rightarrow> ui_state s)"
  by (cases u) (simp_all add: Let_def split: option.split)

lemma fold_updates_ui_states:
  "(\<And>st. UpdateUiState st \<in> set us \<Longrightarrow> st \<in> ui_states) \<Longrightarrow> ui_state s \<in> ui_states \<Longrightarrow>
     ui_state (fold apply_update us s) \<in> ui_states"
proof (induction us arbitrary: s)
  case Nil
  then show ?case by simp
next
  case (Cons u us)
  have "ui_state (apply_update u s) \<in> ui_states"
    unfolding ui_state_apply_update using Cons.prems by (cases u) (auto simp: ui_states_def)
  then show ?case using Cons by simp
qed

lemma scan_status_delimiter: "scan_status DELIMITER = []"
  by code_simp

lemma is_delimiter_DELIMITER: "is_delimiter DELIMITER"
  by (simp add: is_delimiter_def startswith_def)

lemma read_lines_append:
  "read_process_output ctx (map Line xs @ obs) =
     (fst (read_process_output (fst (read_process_output ctx (map Line xs))) obs),
      snd (read_process_output ctx (map Line xs))
        @ snd (read_process_output (fst (read_process_output ctx (map Line xs))) obs))"
proof (induction xs arbitrary: ctx)
  case Nil
  then show ?case by simp
next
  case (Cons x xs)
  show ?case
  proof (cases "x = []")
    case True
    with Cons show ?thesis by simp
  next
    case False
    obtain c1 u1 where p: "process_line ctx x = (c1, u1)" by (cases "process_line ctx x")
    show ?thesis
      using False p Cons.IH[of c1] by (simp add: case_prod_beta)
  qed
qed

lemma read_body:
  "\<forall>b \<in> set body. \<not> is_delimiter (strip b) \<Longrightarrow> json_capture ctx \<Longrightarrow>
     fst (read_process_output ctx (map Line body))
       = ctx\<lparr>json_lines := json_lines ctx @ map strip (filter (\<lambda>b. b \<noteq> []) body)\<rparr> \<and>
     json_blocks (snd (read_process_output ctx (map Line body))) = []"
proof (induction body arbitrary: ctx)
  case Nil
  then show ?case by (simp add: json_blocks_simps)
next
  case (Cons b body)
  show ?case
  proof (cases "b = []")
    case True
    with Cons show ?thesis by simp
  next
    case False
    let ?c1 = "ctx\<lparr>json_lines := json_lines ctx @ [strip b]\<rparr>"
    have p: "process_line ctx b = (?c1, scan_status (strip b))"
      using Cons.prems by (intro process_line_captured) simp_all
    have ih: "fst (read_process_output ?c1 (map Line body))
       = ?c1\<lparr>json_lines := json_lines ?c1 @ map strip (filter (\<lambda>b. b \<noteq> []) body)\<rparr> \<and>
       json_blocks (snd (read_process_output ?c1 (map Line body))) = []"
      using Cons.prems by (intro Cons.IH) simp_all
    obtain c2 u2 where r: "read_process_output ?c1 (map Line body) = (c2, u2)"
      by (cases "read_process_output ?c1 (map Line body)")
    show ?thesis
      using False p r ih by (simp add: json_blocks_append json_blocks_scan_status)
  qed
qed

lemma process_line_buffer_inv:
  "(\<not> json_capture ctx \<longrightarrow> json_lines ctx = []) \<Longrightarrow>
     (\<not> json_capture (fst (process_line ctx raw)) \<longrightarrow> json_lines (fst (process_line ctx raw)) = [])"
  by (cases "is_delimiter (strip raw)"; cases "json_capture ctx")
     (simp_all add: process_line_def Let_def)

lemma read_lines_buffer_inv:
  "(\<not> json_capture ctx \<longrightarrow> json_lines ctx = []) \<Longrightarrow>
     (\<not> json_capture (fst (read_process_output ctx (map Line raws))) \<longrightarrow>
        json_lines (fst (read_process_output ctx (map Line raws))) = [])"
proof (induction raws arbitrary: ctx)
  case Nil
  then show ?case by simp
next
  case (Cons raw raws)
  show ?case
  proof (cases "raw = []")
    case True
    with Cons show ?thesis by simp
  next
    case False
    obtain c1 u1 where p: "process_line ctx raw = (c1, u1)" by (cases "process_line ctx raw")
    have i1: "\<not> json_capture c1 \<longrightarrow> json_lines c1 = []"
      using process_line_buffer_inv[OF Cons.prems, of raw] p by simp
    obtain c2 u2 where r: "read_process_output c1 (map Line raws) = (c2, u2)"
      by (cases "read_process_output c1 (map Line raws)")
    show ?thesis using Cons.IH[OF i1] False p r by simp
  qed
qed

lemma process_line_opening:
  "\<not> json_capture ctx \<Longrightarrow> is_delimiter (strip raw) \<Longrightarrow>
     fst (process_line ctx raw) = ctx\<lparr>json_capture := True\<rparr> \<and>
     json_blocks (snd (process_line ctx raw)) = []"
  by (simp add: process_line_def Let_def json_blocks_scan_status)

lemma read_one: "raw \<noteq> [] \<Longrightarrow> read_process_output ctx (map Line [raw]) = process_line ctx raw"
  by (simp split: prod.split)

lemma delimiter_nonempty: "is_delimiter (strip raw) \<Longrightarrow> raw \<noteq> []"
  using not_delimiter_Nil by (auto simp: strip_def)

lemma read_block:
  assumes pre: "even (count_delimiter_lines pre)"
    and d1: "is_delimiter (strip d1)" and d2: "is_delimiter (strip d2)"
    and body: "\<forall>b \<in> set body. \<not> is_delimiter (strip b)"
  shows "json_blocks (snd (read_process_output ctx0 (map Line (pre @ [d1] @ body @ [d2]))))
           = json_blocks (snd (read_process_output ctx0 (map Line pre)))
             @ [join ''\<newline>'' (map strip (filter (\<lambda>b. b \<noteq> []) body))]"
    and "json_lines (fst (read_process_output ctx0 (map Line (pre @ [d1] @ body @ [d2])))) = []"
    and "\<not> json_capture (fst (read_process_output ctx0 (map Line (pre @ [d1] @ body @ [d2]))))"
proof -
  obtain c1 u1 where r1: "read_process_output ctx0 (map Line pre) = (c1, u1)"
    by (cases "read_process_output ctx0 (map Line pre)")
  have cap1: "\<not> json_capture c1"
    using read_lines_blocks[of ctx0 pre] r1 pre by (simp add: ctx0_def)
  have buf1: "json_lines c1 = []"
    using read_lines_buffer_inv[of ctx0 pre] r1 cap1 by (simp add: ctx0_def)
  let ?c2 = "c1\<lparr>json_capture := True\<rparr>"
  obtain u2 where r2: "read_process_output c1 (map Line [d1]) = (?c2, u2)" and b2: "json_blocks u2 = []"
    using process_line_opening[OF cap1 d1] read_one[OF delimiter_nonempty[OF d1], of c1]
    by (cases "process_line c1 d1") auto
  let ?c3 = "?c2\<lparr>json_lines := map strip (filter (\<lambda>b. b \<noteq> []) body)\<rparr>"
  obtain u3 where r3: "read_process_output ?c2 (map Line body) = (?c3, u3)" and b3: "json_blocks u3 = []"
    using read_body[OF body, of ?c2] buf1
    by (cases "read_process_output ?c2 (map Line body)") auto
  obtain c4 u4 where r4: "read_process_output ?c3 (map Line [d2]) = (c4, u4)"
    by (cases "read_process_output ?c3 (map Line [d2])")
  have p4: "process_line ?c3 d2 = (c4, u4)"
    using r4 read_one[OF delimiter_nonempty[OF d2], of ?c3] by simp
  have b4: "json_blocks u4 = [join ''\<newline>'' (map strip (filter (\<lambda>b. b \<noteq> []) body))]"
    using process_line_blocks[of ?c3 d2] p4 d2 by simp
  have c4: "json_lines c4 = []" "\<not> json_capture c4"
    using process_line_closing[of ?c3 d2] p4 d2 by simp_all
  have all: "read_process_output ctx0 (map Line (pre @ [d1] @ body @ [d2])) = (c4, u1 @ u2 @ u3 @ u4)"
  proof -
    have "read_process_output ctx0 (map Line (pre @ [d1] @ body @ [d2]))
        = read_process_output ctx0 (map Line pre @ map Line [d1] @ map Line body @ map Line [d2])"
      by (simp only: map_append)
    also have "\<dots> = (c4, u1 @ u2 @ u3 @ u4)"
      by (simp only: read_lines_append r1 r2 r3 r4 fst_conv snd_conv)
    finally show ?thesis .
  qed
  show "json_blocks (snd (read_process_output ctx0 (map Line (pre @ [d1] @ body @ [d2]))))
           = json_blocks (snd (read_process_output ctx0 (map Line pre)))
             @ [join ''\<newline>'' (map strip (filter (\<lambda>b. b \<noteq> []) body))]"
    unfolding all r1 by (simp add: json_blocks_append b2 b3 b4)
  show "json_lines (fst (read_process_output ctx0 (map Line (pre @ [d1] @ body @ [d2])))) = []"
    unfolding all by (simp add: c4)
  show "\<not> json_capture (fst (read_process_output ctx0 (map Line (pre @ [d1] @ body @ [d2]))))"
    unfolding all by (simp add: c4)
qed

lemma error_part_state:
  "ui_state (fold apply_update
      (case xs of [] \<Rightarrow> [AddToLog e] | [a] \<Rightarrow> [AddToLog e] | a # msg # r \<Rightarrow> [UpdateStatus (f msg)]) s)
     = ui_state s"
proof (cases xs)
  case Nil
  then show ?thesis by simp
next
  case (Cons a ys)
  then show ?thesis by (cases ys) simp_all
qed

lemma scan_status_state:
  "ui_state (fold apply_update (scan_status l) s) =
     (if contains l ''Environment setup complete'' \<and> \<not> contains l ''Error:''
           \<and> \<not> contains l ''Starting'' \<and> \<not> contains l ''Setting up''
      then STATE_RUNNING
      else if contains l ''Model'' \<and> contains l ''loaded'' \<and> model_match l \<noteq> None
      then STATE_MODEL_READY
      else ui_state s)"
proof -
  let ?p1 = "if contains l ''Model'' \<and> contains l ''loaded'' then
        (case model_match l of Some model_name \<Rightarrow> [UpdateLoadedModel model_name] | None \<Rightarrow> [])
      else []"
  have p1: "ui_state (fold apply_update ?p1 s) =
      (if contains l ''Model'' \<and> contains l ''loaded'' \<and> model_match l \<noteq> None
       then STATE_MODEL_READY else ui_state s)"
    by (cases "model_match l") auto
  have p2: "ui_state (fold apply_update
     (if contains l ''Error:'' then
        (case split l ''Error:'' of
           [] \<Rightarrow> [AddToLog ''Error reading output: list index out of range'']
         | [a] \<Rightarrow> [AddToLog ''Error reading output: list index out of range'']
         | a # msg # r \<Rightarrow> [UpdateStatus (''Error: '' @ strip msg)])
      else if contains l ''Starting'' \<or> contains l ''Setting up'' then
        [UpdateStatus ''Starting service...'']
      else if contains l ''Environment setup complete'' then
        [UpdateStatus ''Service running'', UpdateUiState STATE_RUNNING]
      else if contains l ''Transcribing'' then [UpdateStatus ''Transcribing audio...'']
      else if contains l ''Downloading'' \<or> contains l ''Loading model'' then
        [UpdateStatus ''Loading model...'']
      else if contains l ''Transcription completed'' then
        [UpdateStatus ''Processing transcription...'']
      else []) s') =
      (if contains l ''Environment setup complete'' \<and> \<not> contains l ''Error:''
           \<and> \<not> contains l ''Starting'' \<and> \<not> contains l ''Setting up''
       then STATE_RUNNING else ui_state s')" for s'
  proof (cases "contains l ''Error:''")
    case True
    then show ?thesis by (simp only: if_True error_part_state) simp
  next
    case False
    then show ?thesis by simp
  qed
  show ?thesis
    unfolding scan_status_def fold_append comp_apply p2 p1 by simp
qed

lemma process_line_state:
  "ui_state (fold apply_update (snd (process_line ctx raw)) s) =
     (if contains (strip raw) ''Environment setup complete'' \<and> \<not> contains (strip raw) ''Error:''
           \<and> \<not> contains (strip raw) ''Starting'' \<and> \<not> contains (strip raw) ''Setting up''
      then STATE_RUNNING
      else if contains (strip raw) ''Model'' \<and> contains (strip raw) ''loaded''
           \<and> model_match (strip raw) \<noteq> None
      then STATE_MODEL_READY
      else if is_delimiter (strip raw) \<and> json_capture ctx then STATE_TRANSCRIBED
      else ui_state s)"
proof -
  have pre: "snd (process_line ctx raw) =
      (if is_delimiter (strip raw) then
         (if json_capture ctx then [UpdateTranscriptionOutput (join ''\<newline>'' (json_lines ctx))] else [])
       else if json_capture ctx then [] else [AddToLog (strip raw)]) @ scan_status (strip raw)"
    by (simp add: process_line_def Let_def)
  show ?thesis
    unfolding pre fold_append comp_apply scan_status_state by auto
qed

lemma exited_state:
  "ui_state (fold apply_update (snd (read_process_output ctx (Exited code # rest))) s) = STATE_INITIAL"
  by (simp add: Let_def)

section \<open>Facts about the operators\<close>

lemma launch_finished:
  "launch sys script s = (FINISHED, rs, s') \<Longrightarrow> process_running s'"
  by (auto simp: launch_def Let_def split: sum.splits)

lemma start_service_finished:
  "start_service sys s = (FINISHED, rs, s') \<Longrightarrow> process_running s'"
  by (auto simp: start_service_def split: if_splits option.splits dest: launch_finished)

lemma start_service_running:
  "process_running s \<Longrightarrow>
     start_service sys s = (CANCELLED, [(WARNING, ''Service is already running'')], s)"
  by (simp add: start_service_def)

lemma stop_service_stopped:
  "\<not> process_running s \<Longrightarrow>
     stop_service sys s = (CANCELLED, [(WARNING, ''No service is running'')], whisperx_process s, s)"
  by (simp add: stop_service_def)

lemma stop_service_finished:
  "stop_service sys s = (FINISHED, rs, p, s') \<Longrightarrow>
     \<not> process_running s' \<and> whisperx_process s' = None"
  by (auto simp: stop_service_def Let_def register_def split: if_splits prod.splits)

section \<open>Facts about the log\<close>

lemma split_from_line:
  "CHR ''\<newline>'' \<notin> set l \<Longrightarrow>
     split_from ''\<newline>'' acc (l @ CHR ''\<newline>'' # rest) = (rev acc @ l) # split_from ''\<newline>'' [] rest"
  by (induction l arbitrary: acc) (auto simp: startswith_def)

lemma unlines_Cons: "unlines (l # ls) = l @ CHR ''\<newline>'' # unlines ls"
  by (simp add: unlines_def)

lemma unlines_snoc: "unlines (ls @ [l]) = unlines ls @ l @ ''\<newline>''"
  by (simp add: unlines_def)

lemma split_unlines:
  "(\<forall>l \<in> set ls. CHR ''\<newline>'' \<notin> set l) \<Longrightarrow> split (unlines ls) ''\<newline>'' = ls @ [[]]"
proof (induction ls)
  case Nil
  then show ?case by (simp add: split_def unlines_def)
next
  case (Cons l ls)
  then have "split_from ''\<newline>'' [] (l @ CHR ''\<newline>'' # unlines ls)
               = (rev [] @ l) # split_from ''\<newline>'' [] (unlines ls)"
    by (intro split_from_line) simp
  with Cons show ?case by (simp add: split_def unlines_Cons)
qed

lemma join_Cons: "ys \<noteq> [] \<Longrightarrow> join sep (x # ys) = x @ sep @ join sep ys"
  by (cases ys) simp_all

lemma join_unlines: "join ''\<newline>'' (xs @ [[]]) = unlines xs"
proof (induction xs)
  case Nil
  then show ?case by (simp add: unlines_def)
next
  case (Cons x xs)
  have "join ''\<newline>'' (x # (xs @ [[]])) = x @ ''\<newline>'' @ join ''\<newline>'' (xs @ [[]])"
    by (rule join_Cons) simp
  with Cons show ?case by (simp add: unlines_Cons)
qed

lemma last_n_snoc: "0 < n \<Longrightarrow> n \<le> length xs \<Longrightarrow> last_n (Suc n) (xs @ [x]) = last_n n xs @ [x]"
  by (simp add: last_n_def)

lemma last_n_all: "length xs \<le> n \<Longrightarrow> last_n n xs = xs"
  by (simp add: last_n_def)

lemma last_n_last_n: "last_n n (last_n n xs @ ys) = last_n n (xs @ ys)"
proof (cases "length xs \<le> n")
  case True
  then show ?thesis by (simp add: last_n_all)
next
  case False
  then have "length (drop (length xs - n) xs) = n" by simp
  with False show ?thesis
    by (simp add: last_n_def) (simp add: add.commute)
qed

lemma truncate_log_unlines:
  assumes "\<forall>l \<in> set ls. CHR ''\<newline>'' \<notin> set l"
  shows "truncate_log (unlines ls) = unlines (last_n 99 ls)"
proof (cases "99 < length ls")
  case True
  have "last_n 100 (ls @ [[]]) = last_n 99 ls @ [[]]"
    using last_n_snoc[of 99 ls "[]"] True by simp
  then show ?thesis
    using True by (simp add: truncate_log_def split_unlines[OF assms] join_unlines)
next
  case False
  then show ?thesis
    by (simp add: truncate_log_def split_unlines[OF assms] last_n_all)
qed

lemma set_last_n: "set (last_n n xs) \<subseteq> set xs"
  by (simp add: last_n_def set_drop_subset)

lemma add_to_log_unlines:
  assumes "\<forall>l \<in> set ks. CHR ''\<newline>'' \<notin> set l" "CHR ''\<newline>'' \<notin> set l" "process_log s = unlines ks"
  shows "process_log (apply_update (AddToLog l) s) = unlines (last_n 99 (ks @ [l]))"
proof -
  have "\<forall>x \<in> set (ks @ [l]). CHR ''\<newline>'' \<notin> set x" using assms by auto
  then have "truncate_log (unlines (ks @ [l])) = unlines (last_n 99 (ks @ [l]))"
    by (rule truncate_log_unlines)
  then show ?thesis using assms(3) by (simp add: unlines_snoc)
qed

lemma add_lines_unlines:
  "\<forall>l \<in> set ks. CHR ''\<newline>'' \<notin> set l \<Longrightarrow> \<forall>l \<in> set ls. CHR ''\<newline>'' \<notin> set l \<Longrightarrow>
   process_log s = unlines ks \<Longrightarrow> ls \<noteq> [] \<Longrightarrow>
     process_log (add_lines ls s) = unlines (last_n 99 (ks @ ls))"
proof (induction ls arbitrary: ks s)
  case Nil
  then show ?case by simp
next
  case (Cons l ls)
  let ?s1 = "apply_update (AddToLog l) s"
  let ?k1 = "last_n 99 (ks @ [l])"
  have s1: "process_log ?s1 = unlines ?k1"
    using Cons.prems by (intro add_to_log_unlines) simp_all
  show ?case
  proof (cases "ls = []")
    case True
    with s1 show ?thesis by (simp add: add_lines_def)
  next
    case False
    have k1: "\<forall>x \<in> set ?k1. CHR ''\<newline>'' \<notin> set x"
      using Cons.prems(1,2) set_last_n[of 99 "ks @ [l]"] by auto
    have "process_log (add_lines ls ?s1) = unlines (last_n 99 (?k1 @ ls))"
      using Cons.IH[OF k1 _ s1 False] Cons.prems(2) by simp
    then show ?thesis by (simp add: add_lines_def last_n_last_n)
  qed
qed

text \<open>
  The operators and \<open>process_ended\<close> append to the log themselves, without the
  truncation of \<open>add_to_log\<close>; a log of 99 lines has 101 after two \<open>Load Model\<close>.
\<close>

lemma load_model_log_grows:
  assumes "process_running s" "whisperx_process s = Some p" "returncode p = None"
    "\<not> stdin_closed p" "write_raises sys p = None"
  shows "process_log (snd (snd (load_model sys s)))
           = process_log s @ ''Loading model: '' @ available_models s @ ''...\<newline>''"
  using assms by (simp add: load_model_def Let_def)

lemma process_ended_log_grows:
  "process_log (apply_update (ProcessEnded None) s) = process_log s @ ''Process ended normally\<newline>''"
  by (simp add: Let_def)

lemma log_exceeds_100_lines:
  "line_count (process_log (started_state\<lparr>process_log := unlines (tl hundred_lines)\<rparr>)) = 99 \<and>
   line_count (process_log (snd (snd (load_model fake_os (snd (snd (load_model fake_os
      (started_state\<lparr>process_log := unlines (tl hundred_lines)\<rparr>)))))))) = 101"
  by code_simp

section \<open>The command parser\<close>

text \<open>
  Claim C10. \<open>parse_command\<close> is a total function of the input string (no branch of
  it raises). It answers \<open>("exit", [])\<close> exactly when the stripped input is \<open>exit()\<close>,
  \<open>("list-models", [])\<close> exactly when it is \<open>list-models()\<close>; when the stripped input is
  \<open>load-model(\<close>, some text, \<open>)\<close> it answers \<open>("load-model", [arg])\<close> with \<open>arg\<close> that text
  stripped, and likewise for \<open>transcribe-audio(\<close>; it answers \<open>(None, [])\<close> exactly for
  the strings of none of these four forms.
\<close>

theorem parse_command_spec:
  "(parse_command c = (Some ''exit'', [])) = (strip c = ''exit()'') \<and>
   (parse_command c = (Some ''list-models'', [])) = (strip c = ''list-models()'') \<and>
   (\<forall>mid. strip c = ''load-model('' @ mid @ '')'' \<longrightarrow>
      parse_command c = (Some ''load-model'', [strip mid])) \<and>
   (\<forall>mid. strip c = ''transcribe-audio('' @ mid @ '')'' \<longrightarrow>
      parse_command c = (Some ''transcribe-audio'', [strip mid])) \<and>
   ((parse_command c = (None, [])) =
      (strip c \<noteq> ''exit()'' \<and> strip c \<noteq> ''list-models()'' \<and>
       (\<forall>mid. strip c \<noteq> ''load-model('' @ mid @ '')'') \<and>
       (\<forall>mid. strip c \<noteq> ''transcribe-audio('' @ mid @ '')'')))"
proof -
  have L: "startswith s ''load-model('' \<and> endswith s '')''
             \<longleftrightarrow> (\<exists>mid. s = ''load-model('' @ mid @ '')'')" for s
    using wrapped_iff[of s "''load-model''"] by simp
  have T: "startswith s ''transcribe-audio('' \<and> endswith s '')''
             \<longleftrightarrow> (\<exists>mid. s = ''transcribe-audio('' @ mid @ '')'')" for s
    using wrapped_iff[of s "''transcribe-audio''"] by simp
  have E: "\<not> (\<exists>mid. ''exit()'' = ''load-model('' @ mid @ '')'')"
    "\<not> (\<exists>mid. ''exit()'' = ''transcribe-audio('' @ mid @ '')'')"
    "\<not> (\<exists>mid. ''list-models()'' = ''load-model('' @ mid @ '')'')"
    "\<not> (\<exists>mid. ''list-models()'' = ''transcribe-audio('' @ mid @ '')'')"
    "\<not> (\<exists>mid m2. ''load-model('' @ m2 @ '')'' = ''transcribe-audio('' @ mid @ '')'')"
    by simp_all
  show ?thesis
    unfolding parse_command_def Let_def L T
    using E by (auto simp: slice_to_last_def)
qed

theorem parse_command_spec_witness:
  "strip ''  load-model( tiny.en )\<newline>'' = ''load-model('' @ '' tiny.en '' @ '')'' \<and>
   parse_command ''  load-model( tiny.en )\<newline>'' = (Some ''load-model'', [''tiny.en'']) \<and>
   strip ''transcribe-audio(\"C:/a.wav\")'' = ''transcribe-audio('' @ ''\"C:/a.wav\"'' @ '')'' \<and>
   parse_command ''transcribe-audio(\"C:/a.wav\")'' = (Some ''transcribe-audio'', [''\"C:/a.wav\"''])"
proof -
  have h1: "strip ''  load-model( tiny.en )\<newline>'' = ''load-model('' @ '' tiny.en '' @ '')''"
    by (simp add: strip_def is_space_def)
  have h2: "strip ''transcribe-audio(\"C:/a.wav\")'' = ''transcribe-audio('' @ ''\"C:/a.wav\"'' @ '')''"
    by (simp add: strip_def is_space_def)
  have s1: "strip '' tiny.en '' = ''tiny.en''" by (simp add: strip_def is_space_def)
  have s2: "strip ''\"C:/a.wav\"'' = ''\"C:/a.wav\"''" by (simp add: strip_def is_space_def)
  from parse_command_spec[of "''  load-model( tiny.en )\<newline>''"] h1
  have r1: "parse_command ''  load-model( tiny.en )\<newline>'' = (Some ''load-model'', [strip '' tiny.en ''])"
    by blast
  from parse_command_spec[of "''transcribe-audio(\"C:/a.wav\")''"] h2
  have r2: "parse_command ''transcribe-audio(\"C:/a.wav\")''
              = (Some ''transcribe-audio'', [strip ''\"C:/a.wav\"''])"
    by blast
  show ?thesis using h1 h2 r1 r2 s1 s2 by simp
qed

section \<open>JSON capture\<close>

text \<open>
  Claim C6, amended. A line toggles JSON capture exactly when, with leading and trailing
  whitespace stripped, it begins with 60 \<open>=\<close> characters; what follows the 60
  characters does not matter. (The claim as written asks for equality with the
  delimiter.)
\<close>

theorem toggle_iff:
  "(json_capture (fst (process_line ctx raw)) \<noteq> json_capture ctx) =
     (\<exists>rest. strip raw = replicate 60 CHR ''='' @ rest)"
  using process_line_capture[of ctx raw] is_delimiter_iff[of "strip raw"] by blast

text \<open>
  Claim C6 as written fails: the line of 60 \<open>=\<close> characters followed by \<open>x\<close> is not
  the delimiter, and it switches capture on.
\<close>

theorem toggle_iff_counterexample:
  "replicate 60 CHR ''='' @ ''x'' \<noteq> replicate 60 CHR ''='' \<and>
   json_capture (fst (process_line ctx0 (replicate 60 CHR ''='' @ ''x''))) \<noteq> json_capture ctx0"
  by code_simp

text \<open>
  Claim C2, amended. A line that is read while capture is on and is not a delimiter is
  appended, stripped, to the JSON buffer and is not logged. It is scanned all the same:
  it registers exactly the updates (model name, status, UI state) that the same line
  registers outside capture, where the log entry comes first.
\<close>

theorem capture_line_scanned:
  "json_capture ctx \<Longrightarrow> \<not> is_delimiter (strip raw) \<Longrightarrow>
     fst (process_line ctx raw) = ctx\<lparr>json_lines := json_lines ctx @ [strip raw]\<rparr> \<and>
     (\<forall>l. AddToLog l \<notin> set (snd (process_line ctx raw))) \<and>
     snd (process_line (ctx\<lparr>json_capture := False\<rparr>) raw)
       = AddToLog (strip raw) # snd (process_line ctx raw)"
  by (simp add: process_line_captured process_line_logged scan_status_no_log)

theorem capture_line_scanned_witness:
  "json_capture \<lparr>json_capture = True, json_lines = [''{'']\<rparr> \<and>
   \<not> is_delimiter (strip ''  \"text\": \"Transcribing now\"\<newline>'') \<and>
   fst (process_line \<lparr>json_capture = True, json_lines = [''{'']\<rparr> ''  \"text\": \"Transcribing now\"\<newline>'')
     = \<lparr>json_capture = True, json_lines = [''{'', ''\"text\": \"Transcribing now\"'']\<rparr> \<and>
   (\<forall>l. AddToLog l \<notin> set (snd (process_line \<lparr>json_capture = True, json_lines = [''{'']\<rparr>
        ''  \"text\": \"Transcribing now\"\<newline>''))) \<and>
   snd (process_line \<lparr>json_capture = False, json_lines = [''{'']\<rparr> ''  \"text\": \"Transcribing now\"\<newline>'')
     = [AddToLog ''\"text\": \"Transcribing now\"'', UpdateStatus ''Transcribing audio...'']"
proof -
  let ?c = "\<lparr>json_capture = True, json_lines = [''{'']\<rparr>"
  let ?raw = "''  \"text\": \"Transcribing now\"\<newline>''"
  have h1: "json_capture ?c" by simp
  have h2: "\<not> is_delimiter (strip ?raw)" by code_simp
  have e1: "strip ?raw = ''\"text\": \"Transcribing now\"''" by code_simp
  have e2: "snd (process_line ?c ?raw) = [UpdateStatus ''Transcribing audio...'']" by code_simp
  show ?thesis
    using capture_line_scanned[OF h1 h2] h2 e1 e2 by simp
qed

text \<open>
  Claim C2 as written fails: inside a JSON block, the line
  \<open>"text": "Model 'tiny' loaded",\<close> registers \<open>update_loaded_model\<close>, which moves the
  UI from Processing to ModelReady.
\<close>

theorem capture_line_scanned_counterexample:
  "json_capture \<lparr>json_capture = True, json_lines = [''{'']\<rparr> \<and>
   process_line \<lparr>json_capture = True, json_lines = [''{'']\<rparr>
       ''  \"text\": \"Model 'tiny' loaded\",\<newline>''
     = (\<lparr>json_capture = True, json_lines = [''{'', ''\"text\": \"Model 'tiny' loaded\",'']\<rparr>,
        [UpdateLoadedModel ''tiny'']) \<and>
   ui_state started_state = STATE_PROCESSING \<and>
   ui_state (apply_update (UpdateLoadedModel ''tiny'') started_state) = STATE_MODEL_READY \<and>
   STATE_MODEL_READY \<noteq> STATE_PROCESSING"
  by code_simp

text \<open>
  Claim C3, amended. Call a delimiter line a line that, stripped, begins with 60 \<open>=\<close>
  characters (the loop's own test; the claim as written means the lines equal to them).
  For every finite sequence of lines, read from the start of the loop, the number of
  JSON blocks handed over is the number of complete pairs of delimiter lines, and
  capture is left on exactly when an opening delimiter line has no closing one, for
  which no block is handed over. The block handed over at a closing delimiter line is
  the lines read since the opening one, each stripped, joined with one newline, and the
  buffer is empty afterwards.
\<close>

theorem json_block_count:
  "length (json_blocks (snd (read_process_output ctx0 (map Line raws))))
     = count_delimiter_lines raws div 2 \<and>
   json_capture (fst (read_process_output ctx0 (map Line raws))) = odd (count_delimiter_lines raws) \<and>
   (even (count_delimiter_lines pre) \<and> is_delimiter (strip d1) \<and> is_delimiter (strip d2) \<and>
    (\<forall>b \<in> set body. \<not> is_delimiter (strip b)) \<longrightarrow>
      json_blocks (snd (read_process_output ctx0 (map Line (pre @ [d1] @ body @ [d2]))))
        = json_blocks (snd (read_process_output ctx0 (map Line pre)))
          @ [join ''\<newline>'' (map strip (filter (\<lambda>b. b \<noteq> []) body))] \<and>
      json_lines (fst (read_process_output ctx0 (map Line (pre @ [d1] @ body @ [d2])))) = [] \<and>
      \<not> json_capture (fst (read_process_output ctx0 (map Line (pre @ [d1] @ body @ [d2]))))) \<and>
   (json_capture ctx \<and> is_delimiter (strip raw) \<longrightarrow>
      json_blocks (snd (process_line ctx raw)) = [join ''\<newline>'' (json_lines ctx)] \<and>
      json_lines (fst (process_line ctx raw)) = [] \<and>
      \<not> json_capture (fst (process_line ctx raw)))"
  using read_lines_blocks[of ctx0 raws] read_block[of pre d1 d2 body]
    process_line_blocks[of ctx raw] process_line_closing[of ctx raw]
  by (simp add: ctx0_def)

theorem json_block_count_witness:
  "even (count_delimiter_lines [''log\<newline>'']) \<and>
   is_delimiter (strip (DELIMITER @ ''\<newline>'')) \<and>
   is_delimiter (strip (DELIMITER @ '' end\<newline>'')) \<and>
   json_blocks (snd (read_process_output ctx0 (map Line
      ([''log\<newline>''] @ [DELIMITER @ ''\<newline>''] @ [''{\<newline>'', ''  \"a\": 1\<newline>'', ''}\<newline>'']
         @ [DELIMITER @ '' end\<newline>'']))))
     = [''{\<newline>\"a\": 1\<newline>}''] \<and>
   json_lines (fst (read_process_output ctx0 (map Line
      ([''log\<newline>''] @ [DELIMITER @ ''\<newline>''] @ [''{\<newline>'', ''  \"a\": 1\<newline>'', ''}\<newline>'']
         @ [DELIMITER @ '' end\<newline>''])))) = [] \<and>
   json_capture \<lparr>json_capture = True, json_lines = [''{'', ''}'']\<rparr> \<and>
   json_blocks (snd (process_line \<lparr>json_capture = True, json_lines = [''{'', ''}'']\<rparr> (DELIMITER @ ''\<newline>'')))
     = [''{\<newline>}''] \<and>
   count_delimiter_lines [DELIMITER, ''{'', ''}'', DELIMITER, ''log'', DELIMITER, ''{''] = 3 \<and>
   length (json_blocks (snd (read_process_output ctx0
      (map Line [DELIMITER, ''{'', ''}'', DELIMITER, ''log'', DELIMITER, ''{''])))) = 1"
proof -
  let ?pre = "[''log\<newline>'']"
  let ?d1 = "DELIMITER @ ''\<newline>''"
  let ?d2 = "DELIMITER @ '' end\<newline>''"
  let ?body = "[''{\<newline>'', ''  \"a\": 1\<newline>'', ''}\<newline>'']"
  let ?c = "\<lparr>json_capture = True, json_lines = [''{'', ''}'']\<rparr>"
  let ?raws = "[DELIMITER, ''{'', ''}'', DELIMITER, ''log'', DELIMITER, ''{'']"
  have h0: "even (count_delimiter_lines ?pre)" by code_simp
  have h1: "is_delimiter (strip ?d1)" by code_simp
  have h2: "is_delimiter (strip ?d2)" by code_simp
  have h3: "\<forall>b \<in> set ?body. \<not> is_delimiter (strip b)" by code_simp
  have h4: "json_capture ?c" by simp
  have e0: "json_blocks (snd (read_process_output ctx0 (map Line ?pre))) = []" by code_simp
  have e1: "join ''\<newline>'' (map strip (filter (\<lambda>b. b \<noteq> []) ?body)) = ''{\<newline>\"a\": 1\<newline>}''"
    by code_simp
  have e2: "join ''\<newline>'' (json_lines ?c) = ''{\<newline>}''" by simp
  have e3: "count_delimiter_lines ?raws = 3" by code_simp
  from json_block_count[of ?raws ?pre ?d1 ?d2 ?body ?c ?d1] h0 h1 h2 h3 h4
  have "length (json_blocks (snd (read_process_output ctx0 (map Line ?raws))))
          = count_delimiter_lines ?raws div 2"
    and "json_blocks (snd (read_process_output ctx0 (map Line (?pre @ [?d1] @ ?body @ [?d2]))))
          = json_blocks (snd (read_process_output ctx0 (map Line ?pre)))
            @ [join ''\<newline>'' (map strip (filter (\<lambda>b. b \<noteq> []) ?body))]"
    and "json_lines (fst (read_process_output ctx0 (map Line (?pre @ [?d1] @ ?body @ [?d2])))) = []"
    and "json_blocks (snd (process_line ?c ?d1)) = [join ''\<newline>'' (json_lines ?c)]"
    by blast+
  then show ?thesis
    unfolding e0 e1 e2 e3 using h0 h1 h2 h4 e3 by simp
qed

text \<open>
  Claim C3 as written fails: among the lines of 60 \<open>=\<close>, \<open>{}\<close>, and 60 \<open>=\<close> followed by
  \<open>x\<close>, one line is equal to the delimiter, which makes no complete pair, and yet the
  block \<open>{}\<close> is handed over.
\<close>

theorem json_block_count_counterexample:
  "count_exact_delimiters [DELIMITER, ''{}'', DELIMITER @ ''x''] = 1 \<and>
   count_exact_delimiters [DELIMITER, ''{}'', DELIMITER @ ''x''] div 2 = 0 \<and>
   json_blocks (snd (read_process_output ctx0 (map Line [DELIMITER, ''{}'', DELIMITER @ ''x''])))
     = [''{}'']"
  by code_simp

section \<open>Progress lines\<close>

text \<open>
  Claim C7, amended. A line \<open>progress=<int>\<close> read while capture is off is an ordinary
  log line: the only closure it registers is \<open>add_to_log\<close> with the line, and running
  it changes neither the status message nor the UI state. The supervisor has no
  progress event.
\<close>

theorem progress_line_only_logged:
  "\<not> json_capture ctx \<Longrightarrow> strip raw = ''progress='' @ str_int n \<Longrightarrow>
     process_line ctx raw = (ctx, [AddToLog (''progress='' @ str_int n)]) \<and>
     status_message (apply_update (AddToLog (''progress='' @ str_int n)) s) = status_message s \<and>
     ui_state (apply_update (AddToLog (''progress='' @ str_int n)) s) = ui_state s"
proof -
  assume c: "\<not> json_capture ctx" and h: "strip raw = ''progress='' @ str_int n"
  have "\<not> is_delimiter (strip raw)" unfolding h by (rule progress_not_delimiter)
  with c have "process_line ctx raw = (ctx, AddToLog (strip raw) # scan_status (strip raw))"
    by (rule process_line_logged)
  then have "process_line ctx raw = (ctx, [AddToLog (''progress='' @ str_int n)])"
    by (simp only: h scan_status_progress)
  then show ?thesis by simp
qed

theorem progress_line_only_logged_witness:
  "\<not> json_capture ctx0 \<and> strip ''progress=50\<newline>'' = ''progress='' @ str_int 50 \<and>
   process_line ctx0 ''progress=50\<newline>'' = (ctx0, [AddToLog ''progress=50'']) \<and>
   status_message (apply_update (AddToLog ''progress=50'') started_state) = status_message started_state"
proof -
  have h1: "\<not> json_capture ctx0" by (simp add: ctx0_def)
  have h2: "strip ''progress=50\<newline>'' = ''progress='' @ str_int 50" by code_simp
  have e: "''progress='' @ str_int 50 = ''progress=50''" by code_simp
  show ?thesis
    using progress_line_only_logged[OF h1 h2, of started_state] h1 h2 e by simp
qed

text \<open>
  Claim C7 as written fails: after \<open>progress=50\<close> the status message is what it was
  before, \<open>Starting service...\<close>; the value 50 is in the log only.
\<close>

theorem progress_line_only_logged_counterexample:
  "snd (read_process_output ctx0 [Line ''progress=50\<newline>'']) = [AddToLog ''progress=50''] \<and>
   status_message (feed [Line ''progress=50\<newline>''] started_state) = ''Starting service...'' \<and>
   status_message started_state = ''Starting service...''"
  by code_simp

section \<open>The UI state\<close>

text \<open>
  Claim C1, amended. What a line does to the UI state depends on the line and on the
  capture flag, never on the UI state itself. After a line whose stripped text contains
  \<open>Environment setup complete\<close> and none of \<open>Error:\<close>, \<open>Starting\<close>, \<open>Setting up\<close>, the
  state is Running; otherwise, after a line that contains \<open>Model\<close> and \<open>loaded\<close> and in
  which a quoted name follows \<open>Model\<close>, it is ModelReady; otherwise, after a delimiter
  line that closes a JSON block, it is Transcribed; after every other line it is what
  it was. When the reader finds the process ended, the state becomes Initial. So,
  whatever the worker prints, the UI state stays one of the five states.
\<close>

theorem events_applied_unconditionally:
  "ui_state (fold apply_update (snd (process_line ctx raw)) s) =
     (if contains (strip raw) ''Environment setup complete'' \<and> \<not> contains (strip raw) ''Error:''
           \<and> \<not> contains (strip raw) ''Starting'' \<and> \<not> contains (strip raw) ''Setting up''
      then STATE_RUNNING
      else if contains (strip raw) ''Model'' \<and> contains (strip raw) ''loaded''
           \<and> model_match (strip raw) \<noteq> None
      then STATE_MODEL_READY
      else if is_delimiter (strip raw) \<and> json_capture ctx then STATE_TRANSCRIBED
      else ui_state s) \<and>
   ui_state (fold apply_update (snd (read_process_output ctx (Exited code # rest))) s) = STATE_INITIAL \<and>
   (ui_state s \<in> ui_states \<longrightarrow>
      ui_state (fold apply_update (snd (read_process_output ctx obs)) s) \<in> ui_states)"
proof -
  have r: "\<And>st. UpdateUiState st \<in> set (snd (read_process_output ctx obs)) \<Longrightarrow> st \<in> ui_states"
    using read_process_output_ui_state[of _ ctx obs] by (auto simp: ui_states_def)
  show ?thesis
    using fold_updates_ui_states[OF r, where s = s] process_line_state[of ctx raw s]
      exited_state[of ctx code rest s]
    by blast
qed

theorem events_applied_unconditionally_witness:
  "ui_state started_state \<in> ui_states \<and>
   ui_state (fold apply_update (snd (read_process_output ctx0
       [Line ''Environment setup complete\<newline>'', Line ''Model 'tiny.en' loaded\<newline>''])) started_state)
     \<in> ui_states \<and>
   ui_state (fold apply_update (snd (process_line ctx0 ''Environment setup complete\<newline>''))
       started_state) = STATE_RUNNING \<and>
   ui_state (fold apply_update (snd (process_line ctx0 ''Setting up done. Environment setup complete\<newline>''))
       started_state) = ui_state started_state \<and>
   ui_state (fold apply_update (snd (read_process_output ctx0 [Exited 1])) started_state)
     = STATE_INITIAL"
proof -
  let ?obs = "[Line ''Environment setup complete\<newline>'', Line ''Model 'tiny.en' loaded\<newline>'']"
  let ?r1 = "''Environment setup complete\<newline>''"
  let ?r2 = "''Setting up done. Environment setup complete\<newline>''"
  have h: "ui_state started_state \<in> ui_states" by code_simp
  have c1: "contains (strip ?r1) ''Environment setup complete'' \<and> \<not> contains (strip ?r1) ''Error:''
           \<and> \<not> contains (strip ?r1) ''Starting'' \<and> \<not> contains (strip ?r1) ''Setting up''" by code_simp
  have c2: "contains (strip ?r2) ''Setting up''" by code_simp
  have c3: "\<not> (contains (strip ?r2) ''Model'' \<and> contains (strip ?r2) ''loaded''
           \<and> model_match (strip ?r2) \<noteq> None)" by code_simp
  have c4: "\<not> is_delimiter (strip ?r2)" by code_simp
  from events_applied_unconditionally[where ctx = ctx0 and raw = ?r1 and s = started_state
      and code = 1 and rest = "[]" and obs = ?obs] h c1
  have a1: "ui_state (fold apply_update (snd (process_line ctx0 ?r1)) started_state) = STATE_RUNNING"
    and a2: "ui_state (fold apply_update (snd (read_process_output ctx0 [Exited 1])) started_state)
       = STATE_INITIAL"
    and a3: "ui_state (fold apply_update (snd (read_process_output ctx0 ?obs)) started_state) \<in> ui_states"
    by (simp_all only: if_True simp_thms)
  from events_applied_unconditionally[where ctx = ctx0 and raw = ?r2 and s = started_state
      and code = 1 and rest = "[]" and obs = ?obs] c2 c3 c4
  have a4: "ui_state (fold apply_update (snd (process_line ctx0 ?r2)) started_state)
       = ui_state started_state"
    by (simp only: simp_thms if_False)
  show ?thesis using h a1 a2 a3 a4 by blast
qed

text \<open>
  Claim C1 as written fails: with the UI in state Running (not Processing), the line
  \<open>Model 'tiny.en' loaded\<close> moves it to ModelReady, and a JSON block moves it to
  Transcribed.
\<close>

theorem events_applied_unconditionally_counterexample:
  "ui_state (feed [Line ''Environment setup complete\<newline>''] started_state) = STATE_RUNNING \<and>
   STATE_RUNNING \<noteq> STATE_PROCESSING \<and>
   ui_state (feed [Line ''Model 'tiny.en' loaded\<newline>'']
               (feed [Line ''Environment setup complete\<newline>''] started_state)) = STATE_MODEL_READY \<and>
   STATE_MODEL_READY \<noteq> STATE_RUNNING \<and>
   ui_state (feed [Line (DELIMITER @ ''\<newline>''), Line ''{}\<newline>'', Line (DELIMITER @ ''\<newline>'')]
               (feed [Line ''Environment setup complete\<newline>''] started_state)) = STATE_TRANSCRIBED \<and>
   STATE_TRANSCRIBED \<noteq> STATE_RUNNING"
  by code_simp

text \<open>
  Claim C5, amended. When a line consisting of the delimiter closes a block, the
  buffered text is handed over unchecked: whatever the text, valid JSON or not, it becomes the transcription
  output, the UI state becomes Transcribed and the status \<open>Transcription complete\<close>;
  the session stays as it was.
\<close>

theorem json_block_accepted_unchecked:
  "json_capture ctx \<Longrightarrow> strip raw = DELIMITER \<Longrightarrow>
     snd (process_line ctx raw) = [UpdateTranscriptionOutput (join ''\<newline>'' (json_lines ctx))] \<and>
     ui_state (fold apply_update (snd (process_line ctx raw)) s) = STATE_TRANSCRIBED \<and>
     transcription_output (fold apply_update (snd (process_line ctx raw)) s)
       = join ''\<newline>'' (json_lines ctx) \<and>
     status_message (fold apply_update (snd (process_line ctx raw)) s) = ''Transcription complete'' \<and>
     process_running (fold apply_update (snd (process_line ctx raw)) s) = process_running s"
proof -
  assume c: "json_capture ctx" and d: "strip raw = DELIMITER"
  have "snd (process_line ctx raw) = [UpdateTranscriptionOutput (join ''\<newline>'' (json_lines ctx))]"
    using c by (simp add: process_line_def Let_def d is_delimiter_DELIMITER scan_status_delimiter)
  then show ?thesis by simp
qed

theorem json_block_accepted_unchecked_witness:
  "json_capture \<lparr>json_capture = True, json_lines = [''{'']\<rparr> \<and>
   strip (DELIMITER @ ''\<newline>'') = DELIMITER \<and>
   ui_state (fold apply_update
      (snd (process_line \<lparr>json_capture = True, json_lines = [''{'']\<rparr> (DELIMITER @ ''\<newline>'')))
      started_state) = STATE_TRANSCRIBED \<and>
   transcription_output (fold apply_update
      (snd (process_line \<lparr>json_capture = True, json_lines = [''{'']\<rparr> (DELIMITER @ ''\<newline>'')))
      started_state) = ''{''"
proof -
  let ?c = "\<lparr>json_capture = True, json_lines = [''{'']\<rparr>"
  have h1: "json_capture ?c" by simp
  have h2: "strip (DELIMITER @ ''\<newline>'') = DELIMITER" by code_simp
  show ?thesis
    using json_block_accepted_unchecked[OF h1 h2, of started_state] h2 by simp
qed

text \<open>
  Claim C5 as written fails: the block whose only line is \<open>{\<close> (which no JSON parser
  accepts) moves the UI from Processing to Transcribed and is stored as the
  transcription output.
\<close>

theorem json_block_accepted_unchecked_counterexample:
  "ui_state started_state = STATE_PROCESSING \<and>
   ui_state (feed [Line (DELIMITER @ ''\<newline>''), Line ''{\<newline>'', Line (DELIMITER @ ''\<newline>'')]
       started_state) = STATE_TRANSCRIBED \<and>
   STATE_TRANSCRIBED \<noteq> STATE_PROCESSING \<and>
   transcription_output (feed [Line (DELIMITER @ ''\<newline>''), Line ''{\<newline>'', Line (DELIMITER @ ''\<newline>'')]
       started_state) = ''{'' \<and>
   status_message (feed [Line (DELIMITER @ ''\<newline>''), Line ''{\<newline>'', Line (DELIMITER @ ''\<newline>'')]
       started_state) = ''Transcription complete''"
  by code_simp

section \<open>Starting and stopping\<close>

text \<open>
  Claim C8. While a session is running, \<open>Start Service\<close> is cancelled with the warning
  \<open>Service is already running\<close> and changes nothing; so after a start that succeeded,
  the next start is rejected, whatever the operating system would answer.
\<close>

theorem start_rejected_while_running:
  "(process_running s \<longrightarrow>
      start_service sys s = (CANCELLED, [(WARNING, ''Service is already running'')], s)) \<and>
   (start_service sys s = (FINISHED, rs, s') \<longrightarrow>
      start_service sys' s' = (CANCELLED, [(WARNING, ''Service is already running'')], s'))"
  using start_service_running start_service_finished by blast

theorem start_rejected_while_running_witness:
  "start_service fake_os initial_state = (FINISHED, [], started_state) \<and>
   process_running started_state \<and>
   start_service fake_os started_state
     = (CANCELLED, [(WARNING, ''Service is already running'')], started_state)"
proof -
  have h: "start_service fake_os initial_state = (FINISHED, [], started_state)" by code_simp
  have r: "process_running started_state" by code_simp
  show ?thesis
    using start_rejected_while_running[of initial_state fake_os "[]" started_state fake_os] h r
    by blast
qed

text \<open>
  Claim C9. When no session is running, \<open>Stop Service\<close> is cancelled with the warning
  \<open>No service is running\<close>: no error is reported, the process object is not touched,
  and the state (UI state, loaded model, log and all the rest) is unchanged; so a
  second stop after a stop that succeeded does nothing.
\<close>

theorem stop_when_stopped:
  "(\<not> process_running s \<longrightarrow>
      stop_service sys s = (CANCELLED, [(WARNING, ''No service is running'')], whisperx_process s, s)) \<and>
   (stop_service sys s = (FINISHED, rs, p, s') \<longrightarrow>
      stop_service sys' s' = (CANCELLED, [(WARNING, ''No service is running'')], None, s'))"
proof (intro conjI impI)
  assume "\<not> process_running s"
  then show "stop_service sys s
      = (CANCELLED, [(WARNING, ''No service is running'')], whisperx_process s, s)"
    by (rule stop_service_stopped)
next
  assume "stop_service sys s = (FINISHED, rs, p, s')"
  then have "\<not> process_running s'" "whisperx_process s' = None"
    using stop_service_finished by blast+
  then show "stop_service sys' s' = (CANCELLED, [(WARNING, ''No service is running'')], None, s')"
    using stop_service_stopped[of s' sys'] by simp
qed

theorem stop_when_stopped_witness:
  "\<not> process_running initial_state \<and>
   stop_service fake_os initial_state
     = (CANCELLED, [(WARNING, ''No service is running'')], None, initial_state) \<and>
   fst (stop_service fake_os started_state) = FINISHED \<and>
   stop_service fake_os (snd (snd (snd (stop_service fake_os started_state))))
     = (CANCELLED, [(WARNING, ''No service is running'')], None,
        snd (snd (snd (stop_service fake_os started_state))))"
proof -
  have h1: "\<not> process_running initial_state" by code_simp
  have w: "whisperx_process initial_state = None" by code_simp
  obtain rs p s' where h2: "stop_service fake_os started_state = (FINISHED, rs, p, s')"
  proof -
    have "fst (stop_service fake_os started_state) = FINISHED" by code_simp
    then show ?thesis using that by (cases "stop_service fake_os started_state") auto
  qed
  show ?thesis
    using stop_when_stopped[of initial_state fake_os] h1 w
      stop_when_stopped[of started_state fake_os rs p s' fake_os] h2
    by simp
qed

section \<open>The log\<close>

text \<open>
  Claim C4, checked against the code. Starting from an empty log, after \<open>add_to_log\<close>
  has been called for any lines (none of them containing a newline), the log holds the
  most recent 99 of them in order: one fewer than the 100 of the claim and of the
  comment in \<open>add_to_log\<close>. After the 100 lines \<open>1\<close>, ..., \<open>100\<close> the log holds \<open>2\<close>, ...,
  \<open>100\<close>.
\<close>

theorem add_to_log_keeps_99:
  "\<forall>l \<in> set ls. CHR ''\<newline>'' \<notin> set l \<Longrightarrow>
     process_log (add_lines ls (s\<lparr>process_log := []\<rparr>)) = unlines (last_n 99 ls)"
proof (cases "ls = []")
  case True
  then show ?thesis by (simp add: add_lines_def unlines_def last_n_def)
next
  case False
  assume nf: "\<forall>l \<in> set ls. CHR ''\<newline>'' \<notin> set l"
  show ?thesis
    using add_lines_unlines[of "[]" ls "s\<lparr>process_log := []\<rparr>"] nf False
    by (simp add: unlines_def)
qed

theorem add_to_log_keeps_99_witness:
  "length hundred_lines = 100 \<and>
   process_log (add_lines hundred_lines (initial_state\<lparr>process_log := []\<rparr>))
     = unlines (tl hundred_lines) \<and>
   line_count (unlines (tl hundred_lines)) = 99"
proof -
  have h: "\<forall>l \<in> set hundred_lines. CHR ''\<newline>'' \<notin> set l" by code_simp
  have e1: "last_n 99 hundred_lines = tl hundred_lines" by code_simp
  have e2: "length hundred_lines = 100" by code_simp
  have e3: "line_count (unlines (tl hundred_lines)) = 99" by code_simp
  show ?thesis
    using add_to_log_keeps_99[OF h, of initial_state] e1 e2 e3 by simp
qed

end
